theory Spec2Isabelle
  imports Complex_Main "HOL-Library.Char_ord" "HOL-Library.List_Lexorder"
    "HOL-Library.Product_Lexorder" "HOL-Library.Log_Nat" "HOL-Library.Multiset"
begin

section \<open>Python strings\<close>

text \<open>
  The embedding follows \<^verbatim>\<open>analyze_expenses_v2.py\<close>. A Python \<^verbatim>\<open>str\<close> is modelled as a
  \<^typ>\<open>string\<close>: a list of code points below 256 (Latin-1), one \<^typ>\<open>char\<close> per code point,
  so that slicing and \<^verbatim>\<open>len\<close> count what Python counts. The character classes below are
  Python's own, restricted to that range.
\<close>

definition isspace :: "char \<Rightarrow> bool" where
  \<comment> \<open>\<^verbatim>\<open>str.isspace\<close>, which is also the class \<^verbatim>\<open>\s\<close> of \<^verbatim>\<open>re\<close> on \<^verbatim>\<open>str\<close> patterns and
      what \<^verbatim>\<open>str.strip()\<close> and \<^verbatim>\<open>str.split()\<close> remove: TAB, LF, VT, FF, CR, FS, GS, RS, US,
      space, NEL and the no-break space.\<close>
  "isspace c = (let n = (of_char c :: nat) in
     (9 \<le> n \<and> n \<le> 13) \<or> (28 \<le> n \<and> n \<le> 32) \<or> n = 133 \<or> n = 160)"

definition lower_char :: "char \<Rightarrow> char" where
  \<comment> \<open>\<^verbatim>\<open>str.lower\<close> on one code point: A-Z, and the Latin-1 capitals 0xC0-0xDE but the
      multiplication sign 0xD7, move up by 32.\<close>
  "lower_char c = (let n = (of_char c :: nat) in
     if (65 \<le> n \<and> n \<le> 90) \<or> (192 \<le> n \<and> n \<le> 222 \<and> n \<noteq> 215) then char_of (n + 32) else c)"

definition lower :: "string \<Rightarrow> string" where
  "lower s = map lower_char s"

definition startswith :: "string \<Rightarrow> string \<Rightarrow> bool" where
  \<comment> \<open>\<^verbatim>\<open>s.startswith(p)\<close>\<close>
  "startswith s p = (take (length p) s = p)"

definition lstrip :: "string \<Rightarrow> string" where
  "lstrip s = dropWhile isspace s"

definition rstrip :: "string \<Rightarrow> string" where
  "rstrip s = rev (dropWhile isspace (rev s))"

definition strip :: "string \<Rightarrow> string" where
  \<comment> \<open>\<^verbatim>\<open>s.strip()\<close>\<close>
  "strip s = rstrip (lstrip s)"

definition strip_chars :: "string \<Rightarrow> string \<Rightarrow> string" where
  \<comment> \<open>\<^verbatim>\<open>s.strip(chars)\<close>\<close>
  "strip_chars chars s =
     rev (dropWhile (\<lambda>c. c \<in> set chars) (rev (dropWhile (\<lambda>c. c \<in> set chars) s)))"

definition seps :: string where
  \<comment> \<open>the separator characters of \<^verbatim>\<open>.strip(" ,-_")\<close>\<close>
  "seps = '' ,-_''"

function sub_ws :: "string \<Rightarrow> string" where
  \<comment> \<open>\<^verbatim>\<open>re.sub(r"\s+", " ", s)\<close>: every maximal run of whitespace becomes one space\<close>
  "sub_ws [] = []"
| "sub_ws (c # cs) =
     (if isspace c then CHR '' '' # sub_ws (dropWhile isspace cs) else c # sub_ws cs)"
  by pat_completeness auto
termination
  by (relation "measure length") (auto simp: length_dropWhile_le less_Suc_eq_le)

definition or_unknown :: "string \<Rightarrow> string" where
  \<comment> \<open>\<^verbatim>\<open>x or "Unknown"\<close> (also written \<^verbatim>\<open>x if x else "Unknown"\<close>): the empty string is falsy\<close>
  "or_unknown x = (if x = [] then ''Unknown'' else x)"

definition split1 :: "(char \<Rightarrow> bool) \<Rightarrow> string \<Rightarrow> string list" where
  \<comment> \<open>one split at the first separator: \<^verbatim>\<open>s.split("_", 1)\<close> and
      \<^verbatim>\<open>re.split(r"[_-]", s, maxsplit=1)\<close>. One part when no separator occurs, else two.\<close>
  "split1 is_sep s =
     (if \<exists>c \<in> set s. is_sep c
      then [takeWhile (\<lambda>c. \<not> is_sep c) s, tl (dropWhile (\<lambda>c. \<not> is_sep c) s)]
      else [s])"

fun split_ws :: "string \<Rightarrow> string \<Rightarrow> string list" where
  \<comment> \<open>\<^verbatim>\<open>s.split()\<close>: the maximal runs of non-whitespace; the first argument is the word
      being read\<close>
  "split_ws w [] = (if w = [] then [] else [w])"
| "split_ws w (c # cs) =
     (if isspace c then (if w = [] then split_ws [] cs else w # split_ws [] cs)
      else split_ws (w @ [c]) cs)"

definition split :: "string \<Rightarrow> string list" where
  "split s = split_ws [] s"

fun join :: "string \<Rightarrow> string list \<Rightarrow> string" where
  \<comment> \<open>\<^verbatim>\<open>sep.join(ws)\<close>\<close>
  "join sep [] = []"
| "join sep [w] = w"
| "join sep (w # ws) = w @ sep @ join sep ws"

section \<open>The location parser\<close>

definition after_lounge :: "string \<Rightarrow> string option" where
  \<comment> \<open>the tail \<^verbatim>\<open>\s+lounge\s*(.*)\<close> of the pattern, matched case-insensitively right after
      the alternative: at least one whitespace (the greedy run is all of them, and
      no shorter run can be followed by a letter), then the letters of "lounge", then
      any whitespace; group 2 runs to the end of the line (\<^verbatim>\<open>.\<close> stops at a line feed).\<close>
  "after_lounge r =
     (let r1 = dropWhile isspace r in
      if r \<noteq> [] \<and> isspace (hd r) \<and> startswith (lower r1) ''lounge''
      then Some (takeWhile (\<lambda>c. c \<noteq> CHR 0x0A) (dropWhile isspace (drop 6 r1)))
      else None)"

definition match_dupoint :: "string \<Rightarrow> string option" where
  \<comment> \<open>\<^verbatim>\<open>re.match(r"(?i)(dupoint|dupont)\s+lounge\s*(.*)", s)\<close>: \<^verbatim>\<open>None\<close> when the pattern does
      not match at the start of \<open>s\<close>, else \<^verbatim>\<open>m.group(2)\<close>. The alternatives are tried in
      order; a string cannot begin with both.\<close>
  "match_dupoint s =
     (if startswith (lower s) ''dupoint'' then after_lounge (drop 7 s)
      else if startswith (lower s) ''dupont'' then after_lounge (drop 6 s)
      else None)"

definition normalize_ws :: "string \<Rightarrow> string" where
  \<comment> \<open>\<^verbatim>\<open>s = re.sub(r"\s+", " ", str(loc).strip())\<close>\<close>
  "normalize_ws loc = sub_ws (strip loc)"

definition is_sep_us :: "char \<Rightarrow> bool" where
  "is_sep_us c = (c = CHR ''_'')"

definition is_sep_us_hy :: "char \<Rightarrow> bool" where
  "is_sep_us_hy c = (c = CHR ''_'' \<or> c = CHR ''-'')"

definition parse_norm :: "string \<Rightarrow> string \<times> string" where
  \<comment> \<open>the body of \<^verbatim>\<open>parse_location\<close> from the line \<^verbatim>\<open>lower = s.lower()\<close> on: the brand rules
      in the source's order, then the generic fallbacks\<close>
  "parse_norm s = (let l = lower s in
     if startswith l ''shell'' then (''Shell'', or_unknown (strip_chars seps (drop 5 s)))
     else if startswith l ''total'' then (''Total'', or_unknown (strip_chars seps (drop 5 s)))
     else if startswith l ''home'' then
       (let parts = split1 is_sep_us_hy s;
            area = (if length parts > 1 then strip (parts ! 1)
                    else strip_chars seps (drop 4 s))
        in (''Home'', or_unknown area))
     else if startswith l ''love dale butchery'' \<or> startswith l ''love dale'' then
       (let area = (if CHR ''_'' \<in> set s then strip (split1 is_sep_us s ! 1)
                    else strip_chars seps (drop (length ''Love Dale Butchery'') s))
        in (''Love Dale Butchery'', or_unknown area))
     else if startswith l ''dupoint'' \<or> startswith l ''dupont'' then
       (let m = match_dupoint s;
            area = or_unknown (case m of Some g2 \<Rightarrow> strip g2 | None \<Rightarrow> [])
        in (''Dupoint Lounge'', area))
     else if startswith l ''greenview'' then
       (''Greenview Restaurant'', or_unknown (strip_chars seps (drop (length ''Greenview'') s)))
     else if startswith l ''fish pit hub'' then
       (''Fish Pit Hub'', or_unknown (strip_chars seps (drop (length ''Fish pit hub'') s)))
     else if startswith l ''junction pizza inn'' then (''Pizza Inn'', ''Junction Mall'')
     else if startswith l ''junction mall'' then (''Junction Mall'', ''Junction Mall'')
     else if startswith l ''leofresh'' then
       (''LeoFresh'', or_unknown (strip_chars seps (drop (length ''LeoFresh'') s)))
     else if startswith l ''nairobi chapel'' then
       (''Nairobi Chapel'', or_unknown (strip_chars seps (drop (length ''Nairobi Chapel'') s)))
     else if startswith l ''karura forest'' then (''Karura Forest'', ''Karura'')
     else if startswith l ''rockwell'' then
       (''Rockwell Service Station'', or_unknown (strip_chars seps (drop (length ''Rockwell'') s)))
     else if startswith l ''kisii'' then (''Kisii Contribution'', ''Kisii'')
     else if startswith l ''naivasha road'' then (''Naivasha Road'', ''Naivasha Road'')
     else if CHR ''_'' \<in> set s then
       (let parts = split1 is_sep_us s
        in (or_unknown (strip (parts ! 0)), or_unknown (strip (parts ! 1))))
     else
       (let words = split s in
        if length words \<le> 2 then (s, ''Unknown'')
        else (join '' '' (take 2 words), or_unknown (join '' '' (drop 2 words)))))"

definition parse_location :: "string option \<Rightarrow> string \<times> string" where
  \<comment> \<open>\<^verbatim>\<open>parse_location(loc)\<close>; \<open>None\<close> is a missing value (\<^verbatim>\<open>pd.isna(loc)\<close>)\<close>
  "parse_location loc =
     (case loc of None \<Rightarrow> (''Unknown'', ''Unknown'') | Some x \<Rightarrow> parse_norm (normalize_ws x))"

definition brand_rule_matches :: "string \<Rightarrow> bool" where
  \<comment> \<open>some brand rule of \<^verbatim>\<open>parse_location\<close> applies to the normalized string: the
      disjunction of the guards of the rules\<close>
  "brand_rule_matches s = (let l = lower s in
     startswith l ''shell'' \<or> startswith l ''total'' \<or> startswith l ''home'' \<or>
     startswith l ''love dale butchery'' \<or> startswith l ''love dale'' \<or>
     startswith l ''dupoint'' \<or> startswith l ''dupont'' \<or> startswith l ''greenview'' \<or>
     startswith l ''fish pit hub'' \<or> startswith l ''junction pizza inn'' \<or>
     startswith l ''junction mall'' \<or> startswith l ''leofresh'' \<or>
     startswith l ''nairobi chapel'' \<or> startswith l ''karura forest'' \<or>
     startswith l ''rockwell'' \<or> startswith l ''kisii'' \<or> startswith l ''naivasha road'')"

section \<open>Ledger construction\<close>

text \<open>
  A \<^verbatim>\<open>float64\<close> value is modelled by its class: a finite double is the rational it
  denotes, and the three special values are kept apart. The sign of zero is not
  modelled.
\<close>

datatype fval = Fin rat | PInf | NInf | NaN

datatype cell = Num fval | Text string
  \<comment> \<open>a cell of the \<^verbatim>\<open>Amount\<close> column as \<^verbatim>\<open>read_excel\<close> returns it: a number (a blank cell is
      \<open>Num NaN\<close>) or a text\<close>

definition to_numeric_coerce :: "(string \<Rightarrow> fval option) \<Rightarrow> cell \<Rightarrow> fval" where
  \<comment> \<open>\<^verbatim>\<open>pd.to_numeric(..., errors="coerce")\<close> on one cell. The conversion of a text is the
      library's and is a parameter: \<open>None\<close> where the text is not numeric, and then the
      cell is coerced to NaN.\<close>
  "to_numeric_coerce conv c =
     (case c of Num v \<Rightarrow> v
      | Text t \<Rightarrow> (case conv t of Some v \<Rightarrow> v | None \<Rightarrow> NaN))"

definition fillna0 :: "fval \<Rightarrow> fval" where
  \<comment> \<open>\<^verbatim>\<open>.fillna(0)\<close> on one value\<close>
  "fillna0 v = (if v = NaN then Fin 0 else v)"

definition coerce_amount :: "(string \<Rightarrow> fval option) \<Rightarrow> cell \<Rightarrow> fval" where
  \<comment> \<open>\<^verbatim>\<open>df["Amount"] = pd.to_numeric(df["Amount"], errors="coerce").fillna(0)\<close>\<close>
  "coerce_amount conv c = fillna0 (to_numeric_coerce conv c)"

definition is_finite :: "fval \<Rightarrow> bool" where
  "is_finite v = (case v of Fin _ \<Rightarrow> True | _ \<Rightarrow> False)"

record date =
  year :: nat
  month :: nat
  day :: nat

record row =
  Date :: "date option"
  Amount :: rat
  Location :: "string option"
  Type :: "string option"
  Payment_type :: "string option"

text \<open>
  A \<^typ>\<open>row\<close> is a row of \<^verbatim>\<open>df\<close> after the dates are parsed and the amounts coerced:
  \<open>Date = None\<close> is \<^verbatim>\<open>NaT\<close>, a missing label is \<open>None\<close>. The rows of the aggregation carry
  finite amounts; a finite double is the rational it denotes.
\<close>

definition digit :: "nat \<Rightarrow> char" where
  \<comment> \<open>the decimal digit of \<open>n mod 10\<close>\<close>
  "digit n = ''0123456789'' ! (n mod 10)"

fun zfill :: "nat \<Rightarrow> nat \<Rightarrow> string" where
  \<comment> \<open>the last \<open>k\<close> decimal digits of \<open>n\<close>, zero-padded: the format \<^verbatim>\<open>%0kd\<close> for \<open>n < 10 ^ k\<close>\<close>
  "zfill 0 n = []"
| "zfill (Suc k) n = zfill k (n div 10) @ [digit n]"

definition month_label :: "date \<Rightarrow> string" where
  \<comment> \<open>the text of a monthly period, \<^verbatim>\<open>YYYY-MM\<close>. The years of a pandas timestamp have four
      digits (1677 to 2262).\<close>
  "month_label t = zfill 4 (year t) @ ''-'' @ zfill 2 (month t)"

section \<open>What the code leaves to the library\<close>

type_synonym series = "(string \<times> rat) list"
  \<comment> \<open>a pandas Series of amounts: the index labels with their values, in order\<close>

text \<open>
  Four things are decided inside pandas and numpy, not in the program, and differ between
  versions and machines. They are parameters of the model, and a theorem that assumes
  nothing about them holds whatever the library does:
  \<^item> the double-precision sum of a column (\<^verbatim>\<open>Series.sum\<close>) and of the values of one group
    (\<^verbatim>\<open>groupby(...).sum\<close>), which round after every addition and so depend on the order of
    the values;
  \<^item> the order in which the default sort, which is not stable, leaves equal values: a rank
    of the labels of the series it sorts;
  \<^item> the label of a missing date: the text \<^verbatim>\<open>NaT\<close> in pandas 2, a missing value in
    pandas 3.
\<close>

record lib =
  series_sum :: "rat list \<Rightarrow> rat"
  group_sum :: "rat list \<Rightarrow> rat"
  tie_rank :: "(string \<times> rat) list \<Rightarrow> string \<Rightarrow> nat"
  nat_label :: "string option"

definition Merchant :: "row \<Rightarrow> string option" where
  "Merchant r = Some (fst (parse_location (Location r)))"

definition Area :: "row \<Rightarrow> string option" where
  "Area r = Some (snd (parse_location (Location r)))"

definition Month :: "lib \<Rightarrow> row \<Rightarrow> string option" where
  \<comment> \<open>\<^verbatim>\<open>df["Month"] = df["Date"].dt.to_period("M").astype(str)\<close>\<close>
  "Month L r = (case Date r of None \<Rightarrow> nat_label L | Some t \<Rightarrow> Some (month_label t))"

section \<open>Aggregation\<close>

definition total_spend :: "lib \<Rightarrow> row list \<Rightarrow> rat" where
  \<comment> \<open>\<^verbatim>\<open>total = float(df["Amount"].sum())\<close>\<close>
  "total_spend L df = series_sum L (map Amount df)"

definition groupby_sum :: "lib \<Rightarrow> (row \<Rightarrow> string option) \<Rightarrow> row list \<Rightarrow> series" where
  \<comment> \<open>\<^verbatim>\<open>df.groupby(col)["Amount"].sum()\<close>: one entry per distinct label, the labels in
      ascending order (\<^verbatim>\<open>sort=True\<close>), each with the sum of the amounts of its rows in row
      order; a row whose label is missing belongs to no group (\<^verbatim>\<open>dropna=True\<close>)\<close>
  "groupby_sum L col df =
     map (\<lambda>k. (k, group_sum L (map Amount (filter (\<lambda>r. col r = Some k) df))))
         (sort (remdups (List.map_filter col df)))"

definition sort_index :: "series \<Rightarrow> series" where
  "sort_index s = sort_key fst s"

definition sort_values_desc :: "lib \<Rightarrow> series \<Rightarrow> series" where
  \<comment> \<open>\<^verbatim>\<open>.sort_values(ascending=False)\<close>: descending by value; entries with equal values come
      in the order the library's sort leaves them, by descending tie rank\<close>
  "sort_values_desc L s = rev (sort_key (\<lambda>e. (snd e, tie_rank L s (fst e))) s)"

definition monthly :: "lib \<Rightarrow> row list \<Rightarrow> series" where
  "monthly L df = sort_index (groupby_sum L (Month L) df)"

definition type_tot :: "lib \<Rightarrow> row list \<Rightarrow> series" where
  "type_tot L df = sort_values_desc L (groupby_sum L Type df)"

definition pay_tot :: "lib \<Rightarrow> row list \<Rightarrow> series" where
  "pay_tot L df = sort_values_desc L (groupby_sum L Payment_type df)"

definition merch_tot :: "lib \<Rightarrow> row list \<Rightarrow> series" where
  "merch_tot L df = sort_values_desc L (groupby_sum L Merchant df)"

definition area_tot :: "lib \<Rightarrow> row list \<Rightarrow> series" where
  "area_tot L df = sort_values_desc L (groupby_sum L Area df)"

section \<open>Double arithmetic\<close>

definition round_half_even :: "rat \<Rightarrow> int" where
  \<comment> \<open>the nearest integer, a half to the even neighbour: \<^verbatim>\<open>rint\<close>\<close>
  "round_half_even x =
     (let f = \<lfloor>x\<rfloor>; d = x - of_int f in
      if d < 1 / 2 then f else if 1 / 2 < d then f + 1
      else if even f then f else f + 1)"

definition pow2 :: "int \<Rightarrow> rat" where
  "pow2 e = (if 0 \<le> e then 2 ^ nat e else 1 / 2 ^ nat (- e))"

definition ilog2 :: "rat \<Rightarrow> int" where
  \<comment> \<open>the binary exponent of \<open>x \<noteq> 0\<close>: the \<open>e\<close> with \<open>2 ^ e \<le> \<bar>x\<bar> < 2 ^ (e + 1)\<close>\<close>
  "ilog2 x = (let (p, q) = quotient_of \<bar>x\<bar>; e = bitlen p - bitlen q
              in if pow2 e \<le> \<bar>x\<bar> then e else e - 1)"

definition dbl :: "rat \<Rightarrow> fval" where
  \<comment> \<open>the IEEE 754 binary64 value of an exact result, rounded to nearest, ties to even:
      53 significant bits, exponents from -1022 (below that the spacing stays \<open>2 ^ - 1074\<close>),
      and an infinity when the rounded value reaches \<open>2 ^ 1024\<close>\<close>
  "dbl x = (if x = 0 then Fin 0 else
     let e = max (ilog2 x) (- 1022); u = pow2 (e - 52);
         m = round_half_even (x / u)
     in if 1023 < e \<or> (e = 1023 \<and> 2 ^ 53 \<le> \<bar>m\<bar>) then (if 0 < x then PInf else NInf)
        else Fin (of_int m * u))"

definition fdiv :: "rat \<Rightarrow> rat \<Rightarrow> fval" where
  \<comment> \<open>the quotient of two finite doubles: a zero divisor raises nothing and gives NaN
      or an infinity\<close>
  "fdiv a b =
     (if b \<noteq> 0 then dbl (a / b)
      else if a = 0 then NaN else if 0 < a then PInf else NInf)"

definition fmul100 :: "fval \<Rightarrow> fval" where
  "fmul100 v = (case v of Fin x \<Rightarrow> dbl (x * 100) | _ \<Rightarrow> v)"

definition fround1 :: "fval \<Rightarrow> fval" where
  \<comment> \<open>\<^verbatim>\<open>.round(1)\<close> on one value, as numpy computes it: times 10, \<^verbatim>\<open>rint\<close>, divided by 10\<close>
  "fround1 v =
     (case v of
        Fin x \<Rightarrow> (case dbl (x * 10) of
                    Fin y \<Rightarrow> dbl (of_int (round_half_even y) / 10)
                  | w \<Rightarrow> w)
      | _ \<Rightarrow> v)"

section \<open>The summary\<close>

datatype error = ValueError

fun series_max :: "rat list \<Rightarrow> rat" where
  "series_max [] = 0"
| "series_max [v] = v"
| "series_max (v # vs) = max v (series_max vs)"

fun series_min :: "rat list \<Rightarrow> rat" where
  "series_min [] = 0"
| "series_min [v] = v"
| "series_min (v # vs) = min v (series_min vs)"

definition idxmax :: "series \<Rightarrow> error + string \<times> rat" where
  \<comment> \<open>\<^verbatim>\<open>s.idxmax()\<close> with \<^verbatim>\<open>s.max()\<close>: the label of the first entry, in the order of the
      series, that holds the maximum; \<^verbatim>\<open>ValueError\<close> on an empty series\<close>
  "idxmax s =
     (case find (\<lambda>e. snd e = series_max (map snd s)) s of
        None \<Rightarrow> Inl ValueError | Some e \<Rightarrow> Inr e)"

definition idxmin :: "series \<Rightarrow> error + string \<times> rat" where
  \<comment> \<open>\<^verbatim>\<open>s.idxmin()\<close> with \<^verbatim>\<open>s.min()\<close>: the first entry that holds the minimum\<close>
  "idxmin s =
     (case find (\<lambda>e. snd e = series_min (map snd s)) s of
        None \<Rightarrow> Inl ValueError | Some e \<Rightarrow> Inr e)"

definition highest_month :: "lib \<Rightarrow> row list \<Rightarrow> error + string \<times> rat" where
  \<comment> \<open>\<^verbatim>\<open>{"month": monthly.idxmax(), "amount": float(monthly.max())}\<close>\<close>
  "highest_month L df = idxmax (monthly L df)"

definition lowest_month :: "lib \<Rightarrow> row list \<Rightarrow> error + string \<times> rat" where
  \<comment> \<open>\<^verbatim>\<open>{"month": monthly.idxmin(), "amount": float(monthly.min())}\<close>\<close>
  "lowest_month L df = idxmin (monthly L df)"

definition share :: "rat \<Rightarrow> rat \<Rightarrow> fval" where
  \<comment> \<open>one value of \<^verbatim>\<open>(type_tot / total * 100).round(1)\<close>: the division first, then the
      product, then the rounding, each in double arithmetic\<close>
  "share v t = fround1 (fmul100 (fdiv v t))"

definition with_share :: "lib \<Rightarrow> row list \<Rightarrow> series \<Rightarrow> (string \<times> rat \<times> fval) list" where
  \<comment> \<open>the entries \<^verbatim>\<open>{label: k, "amount": float(v), "share_pct": float(share.loc[k])}\<close>; the
      share series has the labels of the totals, which are distinct, so \<^verbatim>\<open>.loc[k]\<close> is the
      share of the entry itself\<close>
  "with_share L df s = map (\<lambda>(k, v). (k, v, share v (total_spend L df))) s"

definition by_type :: "lib \<Rightarrow> row list \<Rightarrow> (string \<times> rat \<times> fval) list" where
  "by_type L df = with_share L df (type_tot L df)"

definition by_payment :: "lib \<Rightarrow> row list \<Rightarrow> (string \<times> rat \<times> fval) list" where
  "by_payment L df = with_share L df (pay_tot L df)"

definition top_merchants :: "lib \<Rightarrow> row list \<Rightarrow> series" where
  \<comment> \<open>\<^verbatim>\<open>merch_tot.head(10)\<close>\<close>
  "top_merchants L df = take 10 (merch_tot L df)"

definition top_areas :: "lib \<Rightarrow> row list \<Rightarrow> series" where
  "top_areas L df = take 10 (area_tot L df)"

definition monthly_totals :: "lib \<Rightarrow> row list \<Rightarrow> series" where
  "monthly_totals L df = monthly L df"

section \<open>Notions of the specification and sample ledgers\<close>



definition round1 :: "rat \<Rightarrow> rat" where
  \<comment> \<open>the exact decimal rounding to one place, halves to the even neighbour: Python's
      \<^verbatim>\<open>round(x, 1)\<close> before the result is stored as a double\<close>
  "round1 x = of_int (round_half_even (x * 10)) / 10"

definition claimed_share :: "rat \<Rightarrow> rat \<Rightarrow> fval" where
  \<comment> \<open>the share as the specification words it, \<^verbatim>\<open>round(100 * group_sum / grand_total, 1)\<close>,
      in double arithmetic: the product first, then the division\<close>
  "claimed_share v t =
     (case dbl (100 * v) of
        Fin m \<Rightarrow> (case fdiv m t of Fin q \<Rightarrow> dbl (round1 q) | w \<Rightarrow> w)
      | w \<Rightarrow> w)"

definition eps :: rat where
  \<comment> \<open>the spacing of the doubles at 1\<close>
  "eps = 1 / 2 ^ 52"

definition sum_error_bounded :: "(rat list \<Rightarrow> rat) \<Rightarrow> bool" where
  \<comment> \<open>the forward error bound of a double-precision summation of fewer than \<open>2 ^ 52\<close>
      values that does not overflow: it holds for summation in any order, pairwise
      summation and compensated summation\<close>
  "sum_error_bounded f =
     (\<forall>xs. length xs < 2 ^ 52 \<longrightarrow>
        \<bar>f xs - sum_list xs\<bar> \<le> of_nat (length xs) * eps * sum_list (map abs xs))"

definition tolerance :: "row list \<Rightarrow> rat" where
  \<comment> \<open>the floating-point tolerance of a comparison of sums over the ledger\<close>
  "tolerance df = 2 * of_nat (length df) * eps * sum_list (map (\<lambda>r. \<bar>Amount r\<bar>) df)"

definition lib_exact :: lib where
  \<comment> \<open>the library on the sample ledgers below: their amounts are small whole numbers,
      which every double summation adds exactly\<close>
  "lib_exact = \<lparr>series_sum = sum_list, group_sum = sum_list,
                tie_rank = (\<lambda>s k. 0), nat_label = Some ''NaT''\<rparr>"

definition mk_row :: "nat \<times> nat \<times> nat \<Rightarrow> rat \<Rightarrow> string \<Rightarrow> string option \<Rightarrow> row" where
  \<comment> \<open>a row with a date, an amount, a location and a type label, paid in cash\<close>
  "mk_row d a l t =
     \<lparr>Date = Some \<lparr>year = fst d, month = fst (snd d), day = snd (snd d)\<rparr>, Amount = a,
      Location = Some l, Type = t, Payment_type = Some ''Cash''\<rparr>"



definition ledger_tied_months :: "row list" where
  "ledger_tied_months = [mk_row (2024, 2, 5) 100 ''Shell Dagoretti'' (Some ''Fuel''),
                         mk_row (2024, 3, 9) 100 ''Shell Dagoretti'' (Some ''Fuel'')]"

definition ledger_zero_total :: "row list" where
  "ledger_zero_total = [mk_row (2024, 1, 5) 100 ''Shell Dagoretti'' (Some ''A''),
                        mk_row (2024, 1, 6) (- 100) ''Shell Dagoretti'' (Some ''B''),
                        mk_row (2024, 1, 7) 0 ''Shell Dagoretti'' (Some ''C'')]"

definition ledger_23_of_80 :: "row list" where
  "ledger_23_of_80 = [mk_row (2024, 1, 5) 23 ''Shell Dagoretti'' (Some ''A''),
                      mk_row (2024, 1, 6) 57 ''Shell Dagoretti'' (Some ''B'')]"

definition ledger_food :: "row list" where
  "ledger_food = [mk_row (2024, 1, 5) 100 ''Java House'' (Some ''Food''),
                  mk_row (2024, 1, 6) 200 ''Java House'' (Some ''Food''),
                  mk_row (2024, 1, 7) 300 ''Java House'' (Some ''Food'')]"

definition ledger_untyped :: "row list" where
  "ledger_untyped = [mk_row (2024, 1, 5) 7 ''Shell Dagoretti'' (Some ''Fuel''),
                     mk_row (2024, 1, 6) 5 ''Shell Dagoretti'' None]"

section \<open>Facts about strings\<close>

lemma startswith_iff: "startswith s p \<longleftrightarrow> (\<exists>zs. s = p @ zs)"
  unfolding startswith_def
  by (metis append_eq_conv_conj append_take_drop_id)

lemma startswith_Nil [simp]: "startswith s [] = True"
  by (simp add: startswith_def)

lemma startswith_Nil_Cons [simp]: "startswith [] (a # q) = False"
  by (simp add: startswith_def)

lemma startswith_Cons_Cons [simp]: "startswith (c # s) (a # q) = (c = a \<and> startswith s q)"
  by (auto simp: startswith_def)

lemma of_char_lt_256: "(of_char c :: nat) < 256"
  by (cases c) simp

lemma isspace_lower_char: "isspace (lower_char c) = isspace c"
proof -
  have "(of_char c :: nat) < 256" by (cases c) simp
  then show ?thesis
    by (auto simp: isspace_def lower_char_def Let_def)
qed

lemma rstrip_prefix: "\<exists>w. r = rstrip r @ w \<and> (\<forall>c \<in> set w. isspace c)"
proof -
  have "r = rev (rev r)" by simp
  also have "\<dots> = rev (takeWhile isspace (rev r) @ dropWhile isspace (rev r))"
    by (simp only: takeWhile_dropWhile_id)
  also have "\<dots> = rstrip r @ rev (takeWhile isspace (rev r))"
    by (simp only: rev_append rstrip_def)
  finally have "r = rstrip r @ rev (takeWhile isspace (rev r))" .
  moreover have "\<forall>c \<in> set (rev (takeWhile isspace (rev r))). isspace c"
    by (auto dest: set_takeWhileD)
  ultimately show ?thesis by blast
qed

lemma rstrip_append_nonspace:
  assumes "p \<noteq> []" "\<not> isspace (last p)"
  shows "rstrip (p @ r) = p @ rstrip r"
proof -
  from assms obtain q where p: "rev p = last p # q"
    by (metis rev.simps(2) rev_rev_ident snoc_eq_iff_butlast)
  have dp: "dropWhile isspace (rev p) = rev p"
    using assms(2) by (simp add: p)
  show ?thesis
  proof (cases "\<forall>c \<in> set r. isspace c")
    case True
    then have e: "dropWhile isspace (rev r) = []" by simp
    have "dropWhile isspace (rev r @ rev p) = dropWhile isspace (rev p)"
      by (rule dropWhile_append2) (use True in simp)
    then show ?thesis
      by (simp add: rstrip_def dp e)
  next
    case False
    then obtain c where "c \<in> set (rev r)" "\<not> isspace c" by auto
    then have "dropWhile isspace (rev r @ rev p) = dropWhile isspace (rev r) @ rev p"
      by (rule dropWhile_append1)
    then show ?thesis
      by (simp add: rstrip_def)
  qed
qed

lemma sub_ws_append_nonspace:
  assumes "\<forall>c \<in> set p. \<not> isspace c"
  shows "sub_ws (p @ r) = p @ sub_ws r"
  using assms by (induction p) auto

lemma startswith_lower_sub_ws:
  assumes "startswith (lower (sub_ws u)) q" and "\<forall>c \<in> set q. \<not> isspace c"
  shows "startswith (lower u) q"
  using assms
proof (induction q arbitrary: u)
  case Nil
  then show ?case by simp
next
  case (Cons a q)
  show ?case
  proof (cases u)
    case Nil
    with Cons.prems show ?thesis by (simp add: lower_def)
  next
    case (Cons c cs)
    show ?thesis
    proof (cases "isspace c")
      case True
      with Cons.prems(1) Cons have "a = lower_char (CHR '' '')"
        by (simp add: lower_def)
      then have "isspace a" by (simp add: isspace_lower_char) (simp add: isspace_def)
      with Cons.prems(2) show ?thesis by simp
    next
      case False
      with Cons.prems(1) Cons have a: "lower_char c = a" and r: "startswith (lower (sub_ws cs)) q"
        by (simp_all add: lower_def)
      from Cons.IH [OF r] Cons.prems(2) have "startswith (lower cs) q" by simp
      with a Cons show ?thesis by (simp add: lower_def)
    qed
  qed
qed

lemma normalize_ws_prefix:
  assumes l: "lower x = q @ zs" and q: "\<forall>c \<in> set q. \<not> isspace c" and ne: "q \<noteq> []"
  shows "\<exists>p r. x = p @ r \<and> length p = length q \<and> lower p = q
           \<and> normalize_ws x = p @ sub_ws (rstrip r)"
proof -
  from l obtain p r where x: "x = p @ r" and p: "map lower_char p = q"
    unfolding lower_def by (auto simp: map_eq_append_conv)
  have nsp: "\<forall>c \<in> set p. \<not> isspace c"
  proof
    fix c assume "c \<in> set p"
    then have "lower_char c \<in> set q" using p by auto
    with q have "\<not> isspace (lower_char c)" by simp
    then show "\<not> isspace c" by (simp add: isspace_lower_char)
  qed
  from p ne have pne: "p \<noteq> []" by auto
  then have hdp: "\<not> isspace (hd p)" and lastp: "\<not> isspace (last p)"
    using nsp by simp_all
  have "lstrip x = x"
    using pne hdp unfolding lstrip_def x by (cases p) simp_all
  then have "strip x = p @ rstrip r"
    unfolding strip_def x using rstrip_append_nonspace [OF pne lastp] by simp
  then have "normalize_ws x = p @ sub_ws (rstrip r)"
    unfolding normalize_ws_def using sub_ws_append_nonspace [OF nsp] by simp
  with x p show ?thesis
    unfolding lower_def by (metis length_map)
qed

section \<open>Properties of the location parser\<close>

lemma split_ws_nonempty: "w \<in> set (split_ws acc s) \<Longrightarrow> w \<noteq> []"
  by (induction s arbitrary: acc) (auto split: if_splits)

lemma join_nonempty: "ws \<noteq> [] \<Longrightarrow> hd ws \<noteq> [] \<Longrightarrow> join sep ws \<noteq> []"
  by (induction sep ws rule: join.induct) auto

lemma parse_norm_fallback:
  assumes "\<not> brand_rule_matches s"
  shows "parse_norm s =
     (if CHR ''_'' \<in> set s then
       (let parts = split1 is_sep_us s
        in (or_unknown (strip (parts ! 0)), or_unknown (strip (parts ! 1))))
     else
       (let words = split s in
        if length words \<le> 2 then (s, ''Unknown'')
        else (join '' '' (take 2 words), or_unknown (join '' '' (drop 2 words)))))"
  using assms unfolding brand_rule_matches_def parse_norm_def Let_def
  by simp

lemma words_rest_nonempty:
  assumes "2 < length (split s)"
  shows "join '' '' (drop 2 (split s)) \<noteq> []"
proof -
  have ne: "drop 2 (split s) \<noteq> []" using assms by simp
  then have "hd (drop 2 (split s)) \<in> set (split s)"
    by (metis hd_in_set in_set_dropD)
  then have "hd (drop 2 (split s)) \<noteq> []"
    unfolding split_def by (rule split_ws_nonempty)
  with ne show ?thesis by (rule join_nonempty)
qed

text \<open>
  C1 (the code departs from the claim). The missing value gives ("Unknown", "Unknown"),
  but the empty string and a whitespace-only string reach \<^verbatim>\<open>return s, "Unknown"\<close> with
  \<open>s\<close> empty: the merchant is the empty string.
\<close>

theorem parse_location_blank:
  "parse_location None = (''Unknown'', ''Unknown'')
   \<and> parse_location (Some []) = ([], ''Unknown'')
   \<and> parse_location (Some ''   '') = ([], ''Unknown'')"
  by code_simp

lemma split_Nil [simp]: "split [] = []"
  by (simp add: split_def)

lemma words_first_nonempty:
  assumes "2 < length (split s)"
  shows "join '' '' (take 2 (split s)) \<noteq> []"
proof -
  have ne: "take 2 (split s) \<noteq> []" using assms by auto
  then have "hd (take 2 (split s)) \<in> set (split s)"
    by (metis hd_in_set in_set_takeD)
  then have "hd (take 2 (split s)) \<noteq> []"
    unfolding split_def by (rule split_ws_nonempty)
  with ne show ?thesis by (rule join_nonempty)
qed

lemma parse_norm_area_nonempty: "snd (parse_norm s) \<noteq> []"
  by (simp add: parse_norm_def Let_def or_unknown_def)

lemma parse_norm_merchant_empty_iff: "fst (parse_norm s) = [] \<longleftrightarrow> s = []"
proof (cases "brand_rule_matches s")
  case False
  show ?thesis
  proof (cases "2 < length (split s)")
    case True
    then have "s \<noteq> []" by auto
    with True False words_first_nonempty [OF True] show ?thesis
      by (simp add: parse_norm_fallback or_unknown_def Let_def)
  next
    case False
    with \<open>\<not> brand_rule_matches s\<close> show ?thesis
      by (auto simp: parse_norm_fallback or_unknown_def Let_def)
  qed
next
  case True
  then have "s \<noteq> []"
    by (auto simp: brand_rule_matches_def Let_def lower_def)
  moreover have "fst (parse_norm s) \<noteq> []"
    using True unfolding brand_rule_matches_def parse_norm_def Let_def
    by (simp add: or_unknown_def; blast)
  ultimately show ?thesis by simp
qed

text \<open>
  Apart from that case the parser keeps its promise: the area is never empty, and the
  merchant is empty only for a text that normalizes to the empty string.
\<close>

lemma parse_location_components:
  "snd (parse_location loc) \<noteq> []
   \<and> (fst (parse_location loc) = [] \<longleftrightarrow> (\<exists>x. loc = Some x \<and> normalize_ws x = []))"
  by (cases loc) (simp_all add: parse_location_def parse_norm_area_nonempty parse_norm_merchant_empty_iff)

text \<open>
  C7. Every input whose normalized, lowercased form starts with "junction pizza inn" is
  decided by that rule, whatever the later rules would say; the witness is the input
  "Junction Pizza Inn" of the claim.
\<close>

theorem junction_pizza_inn_first:
  assumes "startswith (lower (normalize_ws x)) ''junction pizza inn''"
  shows "parse_location (Some x) = (''Pizza Inn'', ''Junction Mall'')"
proof -
  from assms obtain zs where l: "lower (normalize_ws x) = ''junction pizza inn'' @ zs"
    by (auto simp: startswith_iff)
  then have "parse_norm (normalize_ws x) = (''Pizza Inn'', ''Junction Mall'')"
    by (simp add: parse_norm_def Let_def)
  then show ?thesis
    by (simp add: parse_location_def)
qed

theorem junction_pizza_inn_first_witness:
  "startswith (lower (normalize_ws ''Junction Pizza Inn'')) ''junction pizza inn''
   \<and> parse_location (Some ''Junction Pizza Inn'') = (''Pizza Inn'', ''Junction Mall'')"
proof -
  have h: "startswith (lower (normalize_ws ''Junction Pizza Inn'')) ''junction pizza inn''"
    by code_simp
  from junction_pizza_inn_first [OF h] h show ?thesis by simp
qed

text \<open>
  C8. When no brand rule matches the normalized string and it holds no underscore: with
  at most two words the whole normalized string is the merchant and the area is
  "Unknown"; with more, the merchant is the first two words and the area the remaining
  words, joined by single spaces (the remainder is never empty, so the placeholder is
  not used). The witness is "Java House Westlands Branch".
\<close>

theorem generic_word_fallback:
  assumes "\<not> brand_rule_matches (normalize_ws x)" and "CHR ''_'' \<notin> set (normalize_ws x)"
  shows "parse_location (Some x) =
     (if length (split (normalize_ws x)) \<le> 2 then (normalize_ws x, ''Unknown'')
      else (join '' '' (take 2 (split (normalize_ws x))),
            join '' '' (drop 2 (split (normalize_ws x)))))"
proof (cases "length (split (normalize_ws x)) \<le> 2")
  case True
  then show ?thesis
    using assms by (simp add: parse_location_def parse_norm_fallback)
next
  case False
  then have "join '' '' (drop 2 (split (normalize_ws x))) \<noteq> []"
    by (intro words_rest_nonempty) simp
  then show ?thesis
    using assms False by (simp add: parse_location_def parse_norm_fallback or_unknown_def Let_def)
qed

theorem generic_word_fallback_witness:
  "\<not> brand_rule_matches (normalize_ws ''Java House Westlands Branch'')
   \<and> CHR ''_'' \<notin> set (normalize_ws ''Java House Westlands Branch'')
   \<and> parse_location (Some ''Java House Westlands Branch'') = (''Java House'', ''Westlands Branch'')"
proof -
  have h1: "\<not> brand_rule_matches (normalize_ws ''Java House Westlands Branch'')" by code_simp
  have h2: "CHR ''_'' \<notin> set (normalize_ws ''Java House Westlands Branch'')" by code_simp
  have w: "split (normalize_ws ''Java House Westlands Branch'') =
      [''Java'', ''House'', ''Westlands'', ''Branch'']"
    by code_simp
  from generic_word_fallback [OF h1 h2] h1 h2 show ?thesis
    by (simp add: w)
qed

lemma after_lounge_None_iff:
  "after_lounge r = None \<longleftrightarrow>
     \<not> (r \<noteq> [] \<and> isspace (hd r) \<and> startswith (lower (dropWhile isspace r)) ''lounge'')"
  by (simp add: after_lounge_def Let_def)

lemma lounge_nonspace: "\<forall>c \<in> set ''lounge''. \<not> isspace c"
  by (simp add: isspace_def)

lemma after_lounge_normalized:
  assumes "after_lounge r = None"
  shows "after_lounge (sub_ws (rstrip r)) = None"
proof (rule ccontr)
  assume "after_lounge (sub_ws (rstrip r)) \<noteq> None"
  then have t1: "sub_ws (rstrip r) \<noteq> []" and t2: "isspace (hd (sub_ws (rstrip r)))"
    and t3: "startswith (lower (dropWhile isspace (sub_ws (rstrip r)))) ''lounge''"
    by (simp_all add: after_lounge_None_iff)
  obtain w where w: "r = rstrip r @ w" using rstrip_prefix by blast
  from t1 obtain c cs where r': "rstrip r = c # cs" by (cases "rstrip r") auto
  have c: "isspace c" using t2 r' by (auto split: if_splits)
  define u where "u = dropWhile isspace cs"
  have t: "sub_ws (rstrip r) = CHR '' '' # sub_ws u"
    using c r' by (simp add: u_def)
  have sp: "isspace (CHR '' '')" by (simp add: isspace_def)
  have une: "u \<noteq> []"
  proof
    assume "u = []"
    with t t3 sp show False by (simp add: lower_def)
  qed
  then have hu: "\<not> isspace (hd u)"
    unfolding u_def by (metis hd_dropWhile)
  then have "dropWhile isspace (sub_ws u) = sub_ws u"
    using une by (cases u) simp_all
  with t t3 sp have "startswith (lower (sub_ws u)) ''lounge''" by simp
  then have "startswith (lower u) ''lounge''"
    using lounge_nonspace by (rule startswith_lower_sub_ws)
  then obtain zs where zs: "lower u = ''lounge'' @ zs" by (auto simp: startswith_iff)
  obtain d where d: "d \<in> set cs" "\<not> isspace d"
    using une unfolding u_def by (auto simp: dropWhile_eq_Nil_conv)
  have r: "r = c # cs @ w" using w r' by simp
  have "dropWhile isspace (cs @ w) = u @ w"
    unfolding u_def using d by (rule dropWhile_append1)
  then have "dropWhile isspace r = u @ w"
    using c by (subst r) simp
  then have "lower (dropWhile isspace r) = ''lounge'' @ zs @ lower w"
    using zs by (simp add: lower_def)
  then have "startswith (lower (dropWhile isspace r)) ''lounge''"
    by (simp add: startswith_iff)
  moreover have "r \<noteq> []" "isspace (hd r)" using r c by (simp_all) 
  ultimately have "after_lounge r \<noteq> None" by (simp add: after_lounge_None_iff)
  with assms show False by simp
qed

lemma dupoint_prefix_case:
  assumes l: "lower x = q @ zs" and q: "q = ''dupoint'' \<or> q = ''dupont''"
    and m: "after_lounge (drop (length q) x) = None"
  shows "parse_location (Some x) = (''Dupoint Lounge'', ''Unknown'')"
proof -
  have qs: "\<forall>c \<in> set q. \<not> isspace c" using q by (auto simp: isspace_def)
  have qne: "q \<noteq> []" using q by auto
  from normalize_ws_prefix [OF l qs qne] obtain p r where x: "x = p @ r"
    and len: "length p = length q" and lp: "lower p = q"
    and n: "normalize_ws x = p @ sub_ws (rstrip r)" by blast
  from m x len have "after_lounge r = None" by simp
  then have al: "after_lounge (sub_ws (rstrip r)) = None" by (rule after_lounge_normalized)
  have ln: "lower (normalize_ws x) = q @ lower (sub_ws (rstrip r))"
    using n lp by (simp add: lower_def)
  have md: "match_dupoint (normalize_ws x) = None"
    using q
  proof
    assume "q = ''dupoint''"
    then show ?thesis using al len unfolding match_dupoint_def ln by (simp add: n)
  next
    assume "q = ''dupont''"
    then show ?thesis using al len unfolding match_dupoint_def ln by (simp add: n)
  qed
  show ?thesis
  proof -
    have "parse_norm (normalize_ws x) =
        (''Dupoint Lounge'', or_unknown (case match_dupoint (normalize_ws x) of Some g2 \<Rightarrow> strip g2 | None \<Rightarrow> []))"
      using q
    proof
      assume "q = ''dupoint''"
      with ln have "lower (normalize_ws x) = ''dupoint'' @ lower (sub_ws (rstrip r))" by simp
      then show ?thesis by (simp add: parse_norm_def Let_def)
    next
      assume "q = ''dupont''"
      with ln have "lower (normalize_ws x) = ''dupont'' @ lower (sub_ws (rstrip r))" by simp
      then show ?thesis by (simp add: parse_norm_def Let_def)
    qed
    then show ?thesis
      by (simp add: parse_location_def md or_unknown_def)
  qed
qed

text \<open>
  C10. An input whose lowercased form starts with "dupoint" or "dupont" and that the
  pattern \<^verbatim>\<open>(dupoint|dupont)\s+lounge\s*(.*)\<close> does not match gets the merchant
  "Dupoint Lounge" and the area "Unknown", whether or not the word "lounge" occurs in it;
  it never reaches the generic fallback. The hypotheses are on the raw input, before
  normalization.
\<close>

theorem dupoint_without_lounge:
  assumes "startswith (lower x) ''dupoint'' \<or> startswith (lower x) ''dupont''"
    and "match_dupoint x = None"
  shows "parse_location (Some x) = (''Dupoint Lounge'', ''Unknown'')"
  using assms(1)
proof
  assume a: "startswith (lower x) ''dupoint''"
  then obtain zs where l: "lower x = ''dupoint'' @ zs" by (auto simp: startswith_iff)
  from a assms(2) have "after_lounge (drop 7 x) = None"
    by (simp add: match_dupoint_def)
  then have "after_lounge (drop (length ''dupoint'') x) = None"
    by (simp add: eval_nat_numeral)
  with l show ?thesis by (intro dupoint_prefix_case [where q = "''dupoint''"]) auto
next
  assume a: "startswith (lower x) ''dupont''"
  then obtain zs where l: "lower x = ''dupont'' @ zs" by (auto simp: startswith_iff)
  then have "\<not> startswith (lower x) ''dupoint''" by simp
  with a assms(2) have "after_lounge (drop 6 x) = None"
    by (simp add: match_dupoint_def)
  then have "after_lounge (drop (length ''dupont'') x) = None"
    by (simp add: eval_nat_numeral)
  with l show ?thesis by (intro dupoint_prefix_case [where q = "''dupont''"]) auto
qed

theorem dupoint_without_lounge_witness:
  "(startswith (lower ''Dupont Circle'') ''dupoint'' \<or> startswith (lower ''Dupont Circle'') ''dupont'')
   \<and> match_dupoint ''Dupont Circle'' = None
   \<and> parse_location (Some ''Dupont Circle'') = (''Dupoint Lounge'', ''Unknown'')"
proof -
  have h1: "startswith (lower ''Dupont Circle'') ''dupoint'' \<or> startswith (lower ''Dupont Circle'') ''dupont''"
    by code_simp
  have h2: "match_dupoint ''Dupont Circle'' = None" by code_simp
  from dupoint_without_lounge [OF h1 h2] h1 h2 show ?thesis by simp
qed

section \<open>Properties of the aggregation\<close>

lemma keys_groupby_sum:
  "map fst (groupby_sum L col df) = sort (remdups (List.map_filter col df))"
  by (simp add: groupby_sum_def comp_def)

lemma sorted_keys_groupby_sum: "sorted (map fst (groupby_sum L col df))"
  by (simp add: keys_groupby_sum)

lemma distinct_keys_groupby_sum: "distinct (map fst (groupby_sum L col df))"
  by (simp add: keys_groupby_sum)

lemma strict_sorted_keys_groupby_sum: "sorted_wrt (<) (map fst (groupby_sum L col df))"
  by (simp add: strict_sorted_iff sorted_keys_groupby_sum distinct_keys_groupby_sum)

lemma set_map_filter: "set (List.map_filter f xs) = {k. \<exists>x \<in> set xs. f x = Some k}"
  by (induction xs) (auto simp: List.map_filter_simps split: option.splits)

lemma set_keys_groupby_sum:
  "set (map fst (groupby_sum L col df)) = {k. \<exists>r \<in> set df. col r = Some k}"
  by (simp add: keys_groupby_sum set_map_filter)

lemma sort_index_groupby_sum: "sort_index (groupby_sum L col df) = groupby_sum L col df"
  unfolding sort_index_def by (rule sort_key_id_if_sorted) (rule sorted_keys_groupby_sum)

lemma mset_sort_values_desc: "mset (sort_values_desc L s) = mset s"
  by (simp add: sort_values_desc_def)

lemma sum_sort_values_desc: "sum_list (map snd (sort_values_desc L s)) = sum_list (map snd s)"
proof -
  have "mset (map snd (sort_values_desc L s)) = mset (map snd s)"
    by (simp add: mset_sort_values_desc)
  then show ?thesis by (metis sum_mset_sum_list)
qed

lemma non_increasing_sort_values_desc:
  "sorted_wrt (\<lambda>a b. snd b \<le> snd a) (sort_values_desc L s)"
proof -
  let ?f = "\<lambda>e. (snd e, tie_rank L s (fst e))"
  have "sorted (map ?f (sort_key ?f s))" by (rule sorted_sort_key)
  then have "sorted_wrt (\<lambda>a b. ?f a \<le> ?f b) (sort_key ?f s)"
    by (simp add: sorted_map)
  then have "sorted_wrt (\<lambda>a b. snd a \<le> snd b) (sort_key ?f s)"
    by (rule sorted_wrt_mono_rel [rotated]) (auto simp: less_eq_prod_def)
  then show ?thesis
    by (simp add: sort_values_desc_def sorted_wrt_rev)
qed

lemma non_increasing_with_share:
  "sorted_wrt (\<lambda>a b. snd b \<le> snd a) s \<Longrightarrow>
   sorted_wrt (\<lambda>a b. fst (snd b) \<le> fst (snd a)) (with_share L df s)"
  by (auto simp: with_share_def sorted_wrt_map case_prod_beta elim: sorted_wrt_mono_rel [rotated])

lemma strict_sorted_monthly: "sorted_wrt (<) (map fst (monthly L df))"
  by (simp add: monthly_def sort_index_groupby_sum strict_sorted_keys_groupby_sum)

text \<open>
  C6. For every ledger, \<^verbatim>\<open>by_type\<close>, \<^verbatim>\<open>by_payment\<close>, \<^verbatim>\<open>top_merchants\<close> and \<^verbatim>\<open>top_areas\<close> are
  non-increasing by amount, and \<^verbatim>\<open>monthly_totals\<close> is strictly increasing by month label,
  whatever the library's sums and its order of equal values.
\<close>

theorem summary_ordering:
  "sorted_wrt (\<lambda>a b. fst (snd b) \<le> fst (snd a)) (by_type L df)
   \<and> sorted_wrt (\<lambda>a b. fst (snd b) \<le> fst (snd a)) (by_payment L df)
   \<and> sorted_wrt (\<lambda>a b. snd b \<le> snd a) (top_merchants L df)
   \<and> sorted_wrt (\<lambda>a b. snd b \<le> snd a) (top_areas L df)
   \<and> sorted_wrt (\<lambda>a b. fst a < fst b) (monthly_totals L df)"
proof -
  have "sorted_wrt (\<lambda>a b. fst a < fst b) (monthly_totals L df)"
    using strict_sorted_monthly [of L df] by (simp add: monthly_totals_def sorted_wrt_map)
  then show ?thesis
    by (simp add: by_type_def by_payment_def top_merchants_def top_areas_def
        type_tot_def pay_tot_def merch_tot_def area_tot_def
        non_increasing_with_share non_increasing_sort_values_desc sorted_wrt_take)
qed

section \<open>The extreme months\<close>

lemma zfill_2: "zfill 2 n = [digit (n div 10), digit n]"
proof -
  have "zfill (Suc (Suc 0)) n = [digit (n div 10), digit n]" by simp
  then show ?thesis by (simp add: numeral_2_eq_2)
qed

lemma zfill_4: "zfill 4 n = [digit (n div 1000), digit (n div 100), digit (n div 10), digit n]"
proof -
  have e: "(4::nat) = Suc (Suc (Suc (Suc 0)))" by simp
  show ?thesis
    unfolding e by (simp add: div_mult2_eq [symmetric])
qed

lemma label_feb: "month_label \<lparr>year = 2024, month = 2, day = 5\<rparr> = ''2024-02''"
  by (simp add: month_label_def zfill_4 zfill_2 digit_def)

lemma label_mar: "month_label \<lparr>year = 2024, month = 3, day = 9\<rparr> = ''2024-03''"
  by (simp add: month_label_def zfill_4 zfill_2 digit_def)

lemma monthly_tied:
  "monthly L ledger_tied_months =
     [(''2024-02'', group_sum L [100]), (''2024-03'', group_sum L [100])]"
  by (simp add: monthly_def sort_index_def groupby_sum_def Month_def ledger_tied_months_def
      mk_row_def label_feb label_mar)

text \<open>
  C2 (counterexample). February and March 2024 both total 100, the lowest total, whatever
  the library's summation. The first of them in descending month order is March;
  \<^verbatim>\<open>lowest_month\<close> is February.
\<close>

theorem lowest_month_tie_counterexample:
  "\<forall>L. monthly L ledger_tied_months =
          [(''2024-02'', group_sum L [100]), (''2024-03'', group_sum L [100])]
      \<and> lowest_month L ledger_tied_months = Inr (''2024-02'', group_sum L [100])
      \<and> lowest_month L ledger_tied_months \<noteq> Inr (''2024-03'', group_sum L [100])"
  by (simp add: lowest_month_def idxmin_def monthly_tied)

lemma series_max_props: "vs \<noteq> [] \<Longrightarrow> series_max vs \<in> set vs \<and> (\<forall>v \<in> set vs. v \<le> series_max vs)"
  by (induction vs rule: series_max.induct) (auto simp: max_def)

lemma series_min_props: "vs \<noteq> [] \<Longrightarrow> series_min vs \<in> set vs \<and> (\<forall>v \<in> set vs. series_min vs \<le> v)"
  by (induction vs rule: series_min.induct) (auto simp: min_def)

lemma find_first_label:
  assumes s: "sorted_wrt (<) (map fst s)" and f: "find P s = Some e"
    and e': "e' \<in> set s" "P e'"
  shows "fst e \<le> (fst e' :: string)"
proof -
  from f obtain i where i: "i < length s" "e = s ! i" "\<forall>j<i. \<not> P (s ! j)"
    by (auto simp: find_Some_iff)
  from e' obtain j where j: "j < length s" "e' = s ! j"
    by (auto simp: in_set_conv_nth)
  with e' i have "i \<le> j" by (meson not_le)
  have "sorted (map fst s)" using s by (rule strict_sorted_imp_sorted)
  then have "map fst s ! i \<le> map fst s ! j"
    by (rule sorted_nth_mono) (use \<open>i \<le> j\<close> j(1) in simp_all)
  then show ?thesis using i j by simp
qed

lemma monthly_nonempty:
  assumes "\<exists>r \<in> set df. Month L r \<noteq> None"
  shows "monthly L df \<noteq> []"
proof -
  from assms obtain r k where "r \<in> set df" "Month L r = Some k" by auto
  then have "k \<in> set (map fst (monthly L df))"
    unfolding monthly_def sort_index_groupby_sum set_keys_groupby_sum by blast
  then show ?thesis by auto
qed

lemma idxmax_first:
  assumes "s \<noteq> []" and "sorted_wrt (<) (map fst s)"
  shows "\<exists>k v. idxmax s = Inr (k, v) \<and> (k, v) \<in> set s
           \<and> (\<forall>e \<in> set s. snd e \<le> v \<and> (snd e = v \<longrightarrow> k \<le> fst e))"
proof -
  let ?m = "series_max (map snd s)"
  let ?P = "\<lambda>e. snd e = ?m"
  from assms(1) have m: "?m \<in> set (map snd s)" "\<forall>v \<in> set (map snd s). v \<le> ?m"
    using series_max_props [of "map snd s"] by auto
  then obtain e0 where "e0 \<in> set s" "?P e0" by auto
  then have "find ?P s \<noteq> None" unfolding find_None_iff by blast
  then obtain e where e: "find ?P s = Some e" by auto
  then have es: "e \<in> set s" and pe: "snd e = ?m"
    by (auto simp: find_Some_iff)
  have "\<forall>e' \<in> set s. snd e' \<le> snd e \<and> (snd e' = snd e \<longrightarrow> fst e \<le> fst e')"
  proof
    fix e' assume a: "e' \<in> set s"
    then have "snd e' \<le> snd e" using m(2) pe by auto
    moreover have "snd e' = snd e \<longrightarrow> fst e \<le> fst e'"
      using find_first_label [OF assms(2) e a] pe by auto
    ultimately show "snd e' \<le> snd e \<and> (snd e' = snd e \<longrightarrow> fst e \<le> fst e')" by simp
  qed
  moreover have "idxmax s = Inr (fst e, snd e)" by (simp add: idxmax_def e)
  ultimately show ?thesis using es by (intro exI [of _ "fst e"] exI [of _ "snd e"]) simp
qed

lemma idxmin_first:
  assumes "s \<noteq> []" and "sorted_wrt (<) (map fst s)"
  shows "\<exists>k v. idxmin s = Inr (k, v) \<and> (k, v) \<in> set s
           \<and> (\<forall>e \<in> set s. v \<le> snd e \<and> (snd e = v \<longrightarrow> k \<le> fst e))"
proof -
  let ?m = "series_min (map snd s)"
  let ?P = "\<lambda>e. snd e = ?m"
  from assms(1) have m: "?m \<in> set (map snd s)" "\<forall>v \<in> set (map snd s). ?m \<le> v"
    using series_min_props [of "map snd s"] by auto
  then obtain e0 where "e0 \<in> set s" "?P e0" by auto
  then have "find ?P s \<noteq> None" unfolding find_None_iff by blast
  then obtain e where e: "find ?P s = Some e" by auto
  then have es: "e \<in> set s" and pe: "snd e = ?m"
    by (auto simp: find_Some_iff)
  have "\<forall>e' \<in> set s. snd e \<le> snd e' \<and> (snd e' = snd e \<longrightarrow> fst e \<le> fst e')"
  proof
    fix e' assume a: "e' \<in> set s"
    then have "snd e \<le> snd e'" using m(2) pe by auto
    moreover have "snd e' = snd e \<longrightarrow> fst e \<le> fst e'"
      using find_first_label [OF assms(2) e a] pe by auto
    ultimately show "snd e \<le> snd e' \<and> (snd e' = snd e \<longrightarrow> fst e \<le> fst e')" by simp
  qed
  moreover have "idxmin s = Inr (fst e, snd e)" by (simp add: idxmin_def e)
  ultimately show ?thesis using es by (intro exI [of _ "fst e"] exI [of _ "snd e"]) simp
qed

text \<open>
  C2 (amended). For a ledger with at least one row that has a month label (every row has
  one where the library labels a missing date \<^verbatim>\<open>NaT\<close>), \<^verbatim>\<open>highest_month\<close> is a month of the
  highest total and \<^verbatim>\<open>lowest_month\<close> a month of the lowest total, and each is the first
  such month in ascending month order: every month with the same total has a label that
  is not smaller.
\<close>

theorem extreme_months_first_ascending:
  assumes "\<exists>r \<in> set df. Month L r \<noteq> None"
  shows "(\<exists>k v. highest_month L df = Inr (k, v) \<and> (k, v) \<in> set (monthly L df)
            \<and> (\<forall>e \<in> set (monthly L df). snd e \<le> v \<and> (snd e = v \<longrightarrow> k \<le> fst e)))
       \<and> (\<exists>k v. lowest_month L df = Inr (k, v) \<and> (k, v) \<in> set (monthly L df)
            \<and> (\<forall>e \<in> set (monthly L df). v \<le> snd e \<and> (snd e = v \<longrightarrow> k \<le> fst e)))"
  unfolding highest_month_def lowest_month_def
  using idxmax_first [OF monthly_nonempty [OF assms] strict_sorted_monthly]
    idxmin_first [OF monthly_nonempty [OF assms] strict_sorted_monthly]
  by blast

lemma month_label_present: "nat_label L \<noteq> None \<Longrightarrow> Month L r \<noteq> None"
  by (simp add: Month_def split: option.splits)

lemma month_of_dated_row: "Date r \<noteq> None \<Longrightarrow> Month L r \<noteq> None"
  by (auto simp: Month_def split: option.splits)

theorem extreme_months_first_ascending_witness:
  "(\<exists>r \<in> set ledger_tied_months. Month lib_exact r \<noteq> None)
   \<and> highest_month lib_exact ledger_tied_months = Inr (''2024-02'', 100)
   \<and> (\<exists>k v. lowest_month lib_exact ledger_tied_months = Inr (k, v)
            \<and> (k, v) \<in> set (monthly lib_exact ledger_tied_months))"
proof -
  have ne: "\<exists>r \<in> set ledger_tied_months. Month lib_exact r \<noteq> None"
    by (simp add: ledger_tied_months_def mk_row_def Month_def)
  have h: "highest_month lib_exact ledger_tied_months = Inr (''2024-02'', 100)"
    by (simp add: highest_month_def idxmax_def monthly_tied lib_exact_def)
  from extreme_months_first_ascending [OF ne] ne h show ?thesis by blast
qed

section \<open>The order of tied groups\<close>









section \<open>Properties of the shares\<close>

text \<open>
  C4 (counterexample). Three types with sums 100, -100 and 0: the grand total is 0 and
  the three shares are three different values, none of them a chosen policy value. And
  with sums 23 and 57 of a total of 80 the share of the first is 28.7, where
  \<^verbatim>\<open>round(100 * 23 / 80, 1)\<close> is 28.8: the code divides before it multiplies, and the
  quotient is not a double.
\<close>

theorem zero_total_share_counterexample:
  "total_spend lib_exact ledger_zero_total = 0
   \<and> by_type lib_exact ledger_zero_total = [(''A'', 100, PInf), (''C'', 0, NaN), (''B'', - 100, NInf)]
   \<and> total_spend lib_exact ledger_23_of_80 = 80
   \<and> by_type lib_exact ledger_23_of_80 = [(''B'', 57, dbl (356 / 5)), (''A'', 23, dbl (287 / 10))]
   \<and> claimed_share 23 80 = dbl (144 / 5)
   \<and> dbl (287 / 10) \<noteq> dbl (144 / 5)"
  by code_simp

lemma share_cases:
  "(\<exists>n. share v t = dbl (of_int n / 10)) \<or> share v t = PInf \<or> share v t = NInf \<or> share v t = NaN"
proof (cases "fdiv v t")
  case (Fin q)
  show ?thesis
  proof (cases "dbl (q * 100)")
    case p: (Fin p)
    show ?thesis
    proof (cases "dbl (p * 10)")
      case y: (Fin y)
      then have "share v t = dbl (of_int (round_half_even y) / 10)"
        by (simp add: share_def fmul100_def fround1_def Fin p)
      then show ?thesis by blast
    qed (simp_all add: share_def fmul100_def fround1_def Fin p)
  qed (simp_all add: share_def fmul100_def fround1_def Fin)
qed (simp_all add: share_def fmul100_def fround1_def)

text \<open>
  C4 (amended). Every share is computed from the group sum and the grand total in double
  arithmetic: the quotient, times 100, rounded to one decimal the way numpy does (times
  10, to the nearest integer with halves to even, divided by 10), each step rounded to a
  double. It is a double nearest to a number of one decimal, or not finite. When the grand
  total is 0 nothing is raised and no policy value is substituted: the share is NaN for a
  group whose sum is 0, plus infinity for a positive sum and minus infinity for a
  negative one.
\<close>

theorem share_pct_value:
  "by_type L df = map (\<lambda>(k, v). (k, v, share v (total_spend L df))) (type_tot L df)
   \<and> by_payment L df = map (\<lambda>(k, v). (k, v, share v (total_spend L df))) (pay_tot L df)
   \<and> share v 0 = (if v = 0 then NaN else if 0 < v then PInf else NInf)
   \<and> (t \<noteq> 0 \<and> dbl (v / t) = Fin q \<and> dbl (q * 100) = Fin p \<and> dbl (p * 10) = Fin y
        \<longrightarrow> share v t = dbl (of_int (round_half_even y) / 10))
   \<and> ((\<exists>n. share v t = dbl (of_int n / 10))
        \<or> share v t = PInf \<or> share v t = NInf \<or> share v t = NaN)"
proof -
  have 1: "share v 0 = (if v = 0 then NaN else if 0 < v then PInf else NInf)"
    by (simp add: share_def fdiv_def fmul100_def fround1_def)
  have 2: "t \<noteq> 0 \<and> dbl (v / t) = Fin q \<and> dbl (q * 100) = Fin p \<and> dbl (p * 10) = Fin y
        \<longrightarrow> share v t = dbl (of_int (round_half_even y) / 10)"
    by (simp add: share_def fdiv_def fmul100_def fround1_def)
  show ?thesis
    using 1 2 share_cases [of v t]
    by (simp add: by_type_def by_payment_def with_share_def)
qed

theorem share_pct_value_witness:
  "(80::rat) \<noteq> 0
   \<and> dbl (23 / 80) = Fin (2589569785738035 / 9007199254740992)
   \<and> dbl (2589569785738035 / 9007199254740992 * 100) = Fin (8092405580431359 / 281474976710656)
   \<and> dbl (8092405580431359 / 281474976710656 * 10) = Fin (5057753487769599 / 17592186044416)
   \<and> share 23 80 = dbl (287 / 10)
   \<and> share 1 16 = dbl (31 / 5)
   \<and> share 3 16 = dbl (94 / 5)
   \<and> by_type lib_exact ledger_food = [(''Food'', 600, Fin 100)]"
proof -
  have q: "dbl (23 / 80) = Fin (2589569785738035 / 9007199254740992)" by code_simp
  have p: "dbl (2589569785738035 / 9007199254740992 * 100) = Fin (8092405580431359 / 281474976710656)"
    by code_simp
  have y: "dbl (8092405580431359 / 281474976710656 * 10) = Fin (5057753487769599 / 17592186044416)"
    by code_simp
  have r: "round_half_even (5057753487769599 / 17592186044416) = 287" by code_simp
  have a: "share 1 16 = dbl (31 / 5)" by code_simp
  have b: "share 3 16 = dbl (94 / 5)" by code_simp
  have f: "by_type lib_exact ledger_food = [(''Food'', 600, Fin 100)]" by code_simp
  from share_pct_value [of _ _ 23 80 "2589569785738035 / 9007199254740992"
      "8092405580431359 / 281474976710656" "5057753487769599 / 17592186044416"] q p y
  have "share 23 80 = dbl (of_int (round_half_even (5057753487769599 / 17592186044416)) / 10)"
    by simp
  then have "share 23 80 = dbl (287 / 10)" by (simp add: r)
  with q p y a b f show ?thesis by simp
qed

section \<open>Conservation of the sums\<close>

lemma sum_filter_as_if:
  "sum_list (map f (filter P xs)) = sum_list (map (\<lambda>x. if P x then f x else (0::rat)) xs)"
  by (induction xs) auto

lemma sum_list_sum_swap:
  "finite K \<Longrightarrow> (\<Sum>k\<in>K. sum_list (map (g k) xs)) = sum_list (map (\<lambda>x. \<Sum>k\<in>K. (g k x :: rat)) xs)"
  by (induction xs) (auto simp: sum.distrib)

lemma sum_groups_exact:
  fixes f :: "row \<Rightarrow> rat"
  shows "sum_list (map (\<lambda>k. sum_list (map f (filter (\<lambda>r. col r = Some k) df)))
            (sort (remdups (List.map_filter col df))))
         = sum_list (map f (filter (\<lambda>r. col r \<noteq> None) df))"
proof -
  let ?K = "set (List.map_filter col df)"
  let ?ks = "sort (remdups (List.map_filter col df))"
  have fin: "finite ?K" by simp
  have "sum_list (map (\<lambda>k. sum_list (map f (filter (\<lambda>r. col r = Some k) df))) ?ks)
      = (\<Sum>k\<in>?K. sum_list (map f (filter (\<lambda>r. col r = Some k) df)))"
    by (subst sum_list_distinct_conv_sum_set) simp_all
  also have "\<dots> = (\<Sum>k\<in>?K. sum_list (map (\<lambda>r. if col r = Some k then f r else 0) df))"
    by (simp add: sum_filter_as_if)
  also have "\<dots> = sum_list (map (\<lambda>r. \<Sum>k\<in>?K. if col r = Some k then f r else 0) df)"
    using fin by (rule sum_list_sum_swap)
  also have "\<dots> = sum_list (map (\<lambda>r. if col r \<noteq> None then f r else 0) df)"
  proof (rule arg_cong [where f = sum_list], rule map_cong [OF refl])
    fix r assume r: "r \<in> set df"
    show "(\<Sum>k\<in>?K. if col r = Some k then f r else 0) = (if col r \<noteq> None then f r else 0)"
    proof (cases "col r")
      case None
      then show ?thesis by simp
    next
      case (Some k)
      with r have "k \<in> ?K" by (auto simp: set_map_filter)
      with Some fin show ?thesis by (simp add: sum.delta eq_commute [of k])
    qed
  qed
  also have "\<dots> = sum_list (map f (filter (\<lambda>r. col r \<noteq> None) df))"
    by (simp add: sum_filter_as_if)
  finally show ?thesis .
qed

lemma sum_abs_filter_le:
  fixes f :: "'a \<Rightarrow> rat"
  shows "sum_list (map (\<lambda>r. \<bar>f r\<bar>) (filter P xs)) \<le> sum_list (map (\<lambda>r. \<bar>f r\<bar>) xs)"
  by (induction xs) auto

lemma sum_abs_nonneg:
  fixes f :: "'a \<Rightarrow> rat"
  shows "0 \<le> sum_list (map (\<lambda>r. \<bar>f r\<bar>) xs)"
  by (induction xs) auto

lemma eps_nonneg: "0 \<le> eps"
  by (simp add: eps_def)

lemma bounded_on_rows:
  assumes b: "sum_error_bounded g" and n: "length df < 2 ^ 52"
  shows "\<bar>g (map Amount (filter P df)) - sum_list (map Amount (filter P df))\<bar>
           \<le> of_nat (length df) * eps * sum_list (map (\<lambda>r. \<bar>Amount r\<bar>) (filter P df))"
proof -
  let ?xs = "map Amount (filter P df)"
  have l: "length ?xs \<le> length df" by simp
  have "length ?xs < 2 ^ 52" by (rule le_less_trans [OF l n])
  with b have "\<bar>g ?xs - sum_list ?xs\<bar> \<le> of_nat (length ?xs) * eps * sum_list (map abs ?xs)"
    unfolding sum_error_bounded_def by blast
  also have "sum_list (map abs ?xs) = sum_list (map (\<lambda>r. \<bar>Amount r\<bar>) (filter P df))"
    by (simp add: comp_def)
  also have "of_nat (length ?xs) * eps * sum_list (map (\<lambda>r. \<bar>Amount r\<bar>) (filter P df))
      \<le> of_nat (length df) * eps * sum_list (map (\<lambda>r. \<bar>Amount r\<bar>) (filter P df))"
  proof -
    have "(of_nat (length ?xs) :: rat) \<le> of_nat (length df)" using l by simp
    then show ?thesis
      by (intro mult_right_mono eps_nonneg sum_abs_nonneg)
  qed
  finally show ?thesis .
qed

lemma group_sums_near_exact:
  assumes b: "sum_error_bounded (group_sum L)" and n: "length df < 2 ^ 52"
  shows "\<bar>sum_list (map snd (groupby_sum L col df))
            - sum_list (map Amount (filter (\<lambda>r. col r \<noteq> None) df))\<bar>
           \<le> of_nat (length df) * eps * sum_list (map (\<lambda>r. \<bar>Amount r\<bar>) df)"
proof -
  let ?ks = "sort (remdups (List.map_filter col df))"
  let ?rows = "\<lambda>k. filter (\<lambda>r. col r = Some k) df"
  let ?c = "of_nat (length df) * eps :: rat"
  have c: "0 \<le> ?c" by (simp add: eps_nonneg)
  have "sum_list (map snd (groupby_sum L col df))
          - sum_list (map Amount (filter (\<lambda>r. col r \<noteq> None) df))
      = sum_list (map (\<lambda>k. group_sum L (map Amount (?rows k))) ?ks)
          - sum_list (map (\<lambda>k. sum_list (map Amount (?rows k))) ?ks)"
    by (simp add: groupby_sum_def comp_def sum_groups_exact)
  also have "\<dots> = sum_list (map (\<lambda>k. group_sum L (map Amount (?rows k))
                                   - sum_list (map Amount (?rows k))) ?ks)"
    by (simp add: sum_list_subtractf)
  finally have "\<bar>sum_list (map snd (groupby_sum L col df))
          - sum_list (map Amount (filter (\<lambda>r. col r \<noteq> None) df))\<bar>
      \<le> sum_list (map (\<lambda>k. \<bar>group_sum L (map Amount (?rows k))
                                   - sum_list (map Amount (?rows k))\<bar>) ?ks)"
    using sum_list_abs [of "map (\<lambda>k. group_sum L (map Amount (?rows k))
                                   - sum_list (map Amount (?rows k))) ?ks"]
    by (simp add: comp_def)
  also have "\<dots> \<le> sum_list (map (\<lambda>k. ?c * sum_list (map (\<lambda>r. \<bar>Amount r\<bar>) (?rows k))) ?ks)"
    by (rule sum_list_mono) (rule bounded_on_rows [OF b n])
  also have "\<dots> = ?c * sum_list (map (\<lambda>k. sum_list (map (\<lambda>r. \<bar>Amount r\<bar>) (?rows k))) ?ks)"
    by (simp add: sum_list_const_mult)
  also have "\<dots> = ?c * sum_list (map (\<lambda>r. \<bar>Amount r\<bar>) (filter (\<lambda>r. col r \<noteq> None) df))"
    by (simp only: sum_groups_exact)
  also have "\<dots> \<le> ?c * sum_list (map (\<lambda>r. \<bar>Amount r\<bar>) df)"
    by (intro mult_left_mono sum_abs_filter_le c)
  finally show ?thesis .
qed

lemma conservation_within_tolerance:
  assumes g: "sum_error_bounded (group_sum L)" and t: "sum_error_bounded (series_sum L)"
    and n: "length df < 2 ^ 52"
  shows "\<bar>sum_list (map snd (groupby_sum L col df))
            - total_spend L (filter (\<lambda>r. col r \<noteq> None) df)\<bar> \<le> tolerance df"
proof -
  let ?lab = "filter (\<lambda>r. col r \<noteq> None) df"
  let ?b = "of_nat (length df) * eps * sum_list (map (\<lambda>r. \<bar>Amount r\<bar>) df)"
  have c: "0 \<le> (of_nat (length df) * eps :: rat)" by (simp add: eps_nonneg)
  have 1: "\<bar>sum_list (map snd (groupby_sum L col df)) - sum_list (map Amount ?lab)\<bar> \<le> ?b"
    by (rule group_sums_near_exact [OF g n])
  have "\<bar>total_spend L ?lab - sum_list (map Amount ?lab)\<bar>
      \<le> of_nat (length df) * eps * sum_list (map (\<lambda>r. \<bar>Amount r\<bar>) ?lab)"
    unfolding total_spend_def by (rule bounded_on_rows [OF t n])
  also have "\<dots> \<le> ?b"
    by (intro mult_left_mono sum_abs_filter_le c)
  finally have 2: "\<bar>total_spend L ?lab - sum_list (map Amount ?lab)\<bar> \<le> ?b" .
  from 1 2 show ?thesis
    unfolding tolerance_def by linarith
qed

lemma sum_error_bounded_exact: "sum_error_bounded sum_list"
  unfolding sum_error_bounded_def
proof (intro allI impI)
  fix xs :: "rat list"
  have "0 \<le> sum_list (map abs xs)" by (induction xs) auto
  then show "\<bar>sum_list xs - sum_list xs\<bar> \<le> of_nat (length xs) * eps * sum_list (map abs xs)"
    by (simp add: eps_nonneg)
qed

text \<open>
  C5 (counterexample). Two rows of amounts 7 and 5, the second with no type label: the
  type dimension has one group of sum 7, and the grand total is 12, far beyond the
  tolerance.
\<close>

theorem dropped_label_counterexample:
  "sum_list (map snd (type_tot lib_exact ledger_untyped)) = 7
   \<and> total_spend lib_exact ledger_untyped = 12
   \<and> tolerance ledger_untyped < 5"
  by code_simp

text \<open>
  C5 (amended). For every grouping dimension the sum of the group sums equals, within
  floating-point tolerance, the total of the amounts of the rows that carry a label of the
  dimension: a row whose label is missing belongs to no group. Every row has a merchant
  and an area; a row has a month when it has a date (or when the library labels a missing
  date \<^verbatim>\<open>NaT\<close>); a row with a blank type or payment label has none. The library's sums are
  taken to meet the forward error bound of double-precision summation, and the tolerance
  is twice that bound for the ledger.
\<close>

theorem sum_conservation:
  assumes "sum_error_bounded (group_sum L)" and "sum_error_bounded (series_sum L)"
    and "length df < 2 ^ 52"
  shows "\<bar>sum_list (map snd (monthly L df))
            - total_spend L (filter (\<lambda>r. Date r \<noteq> None \<or> nat_label L \<noteq> None) df)\<bar> \<le> tolerance df
   \<and> \<bar>sum_list (map snd (merch_tot L df)) - total_spend L df\<bar> \<le> tolerance df
   \<and> \<bar>sum_list (map snd (area_tot L df)) - total_spend L df\<bar> \<le> tolerance df
   \<and> \<bar>sum_list (map snd (type_tot L df))
            - total_spend L (filter (\<lambda>r. Type r \<noteq> None) df)\<bar> \<le> tolerance df
   \<and> \<bar>sum_list (map snd (pay_tot L df))
            - total_spend L (filter (\<lambda>r. Payment_type r \<noteq> None) df)\<bar> \<le> tolerance df"
proof -
  have m: "(\<lambda>r. Month L r \<noteq> None) = (\<lambda>r. Date r \<noteq> None \<or> nat_label L \<noteq> None)"
    by (auto simp: Month_def fun_eq_iff split: option.splits)
  have a: "filter (\<lambda>r. Merchant r \<noteq> None) df = df" "filter (\<lambda>r. Area r \<noteq> None) df = df"
    by (simp_all add: Merchant_def Area_def)
  note c = conservation_within_tolerance [OF assms]
  have 1: "\<bar>sum_list (map snd (monthly L df))
            - total_spend L (filter (\<lambda>r. Date r \<noteq> None \<or> nat_label L \<noteq> None) df)\<bar> \<le> tolerance df"
    using c [of "Month L"] unfolding monthly_def sort_index_groupby_sum m .
  have 2: "\<bar>sum_list (map snd (merch_tot L df)) - total_spend L df\<bar> \<le> tolerance df"
    using c [of Merchant] unfolding merch_tot_def sum_sort_values_desc a .
  have 3: "\<bar>sum_list (map snd (area_tot L df)) - total_spend L df\<bar> \<le> tolerance df"
    using c [of Area] unfolding area_tot_def sum_sort_values_desc a .
  have 4: "\<bar>sum_list (map snd (type_tot L df))
            - total_spend L (filter (\<lambda>r. Type r \<noteq> None) df)\<bar> \<le> tolerance df"
    using c [of Type] unfolding type_tot_def sum_sort_values_desc .
  have 5: "\<bar>sum_list (map snd (pay_tot L df))
            - total_spend L (filter (\<lambda>r. Payment_type r \<noteq> None) df)\<bar> \<le> tolerance df"
    using c [of Payment_type] unfolding pay_tot_def sum_sort_values_desc .
  from 1 2 3 4 5 show ?thesis by (intro conjI)
qed

theorem sum_conservation_witness:
  "sum_error_bounded (group_sum lib_exact) \<and> sum_error_bounded (series_sum lib_exact)
   \<and> length ledger_untyped < 2 ^ 52
   \<and> \<bar>sum_list (map snd (area_tot lib_exact ledger_untyped)) - total_spend lib_exact ledger_untyped\<bar>
        \<le> tolerance ledger_untyped
   \<and> sum_list (map snd (area_tot lib_exact ledger_untyped)) = 12
   \<and> total_spend lib_exact (filter (\<lambda>r. Type r \<noteq> None) ledger_untyped) = 7"
proof -
  have g: "sum_error_bounded (group_sum lib_exact)" "sum_error_bounded (series_sum lib_exact)"
    by (simp_all add: lib_exact_def sum_error_bounded_exact)
  have n: "length ledger_untyped < 2 ^ 52" by (simp add: ledger_untyped_def)
  have v: "sum_list (map snd (area_tot lib_exact ledger_untyped)) = 12" by code_simp
  have w: "total_spend lib_exact (filter (\<lambda>r. Type r \<noteq> None) ledger_untyped) = 7" by code_simp
  from sum_conservation [OF g n] g n v w show ?thesis by simp
qed

section \<open>Properties of the ledger construction\<close>

text \<open>
  C9 (counterexample). A cell that holds the double infinity, or a text that the
  conversion reads as infinity, stays infinite: \<^verbatim>\<open>fillna(0)\<close> replaces NaN only.
\<close>

theorem infinite_amount_counterexample:
  "\<not> is_finite (coerce_amount (\<lambda>t. None) (Num PInf))
   \<and> \<not> is_finite (coerce_amount (\<lambda>t. if t = ''inf'' then Some PInf else None) (Text ''inf''))"
  by (simp add: coerce_amount_def to_numeric_coerce_def fillna0_def is_finite_def)

text \<open>
  C9 (amended). The coercion is total and its result is never NaN: a text that is not
  numeric and a blank cell become 0, every other value is kept as converted, so the
  amount is finite exactly when the converted value is not an infinity.
\<close>

theorem coerce_amount_total:
  "coerce_amount conv c \<noteq> NaN
   \<and> (conv t = None \<longrightarrow> coerce_amount conv (Text t) = Fin 0)
   \<and> coerce_amount conv (Num NaN) = Fin 0
   \<and> (to_numeric_coerce conv c \<noteq> NaN \<longrightarrow> coerce_amount conv c = to_numeric_coerce conv c)
   \<and> (is_finite (coerce_amount conv c) \<longleftrightarrow>
        to_numeric_coerce conv c \<noteq> PInf \<and> to_numeric_coerce conv c \<noteq> NInf)"
  by (cases "to_numeric_coerce conv c")
     (simp_all add: coerce_amount_def to_numeric_coerce_def fillna0_def is_finite_def)

theorem coerce_amount_total_witness:
  "(\<lambda>t. None :: fval option) ''n/a'' = None
   \<and> coerce_amount (\<lambda>t. None) (Text ''n/a'') = Fin 0
   \<and> to_numeric_coerce (\<lambda>t. None) (Num (Fin 250)) \<noteq> NaN
   \<and> coerce_amount (\<lambda>t. None) (Num (Fin 250)) = Fin 250"
  using coerce_amount_total [of "\<lambda>t. None" "Num (Fin 250)" "''n/a''"]
  by (simp add: to_numeric_coerce_def)

section \<open>Month labels and chronological order\<close>

lemma of_char_digit_table:
  "\<forall>k \<in> set [0..<10]. (of_char (''0123456789'' ! k) :: nat) = 48 + k"
  by code_simp

lemma of_char_digit: "(of_char (digit n) :: nat) = 48 + n mod 10"
proof -
  have "n mod 10 \<in> set [0..<10]" by simp
  with of_char_digit_table show ?thesis
    unfolding digit_def by blast
qed

lemma digit_less_iff: "digit i < digit j \<longleftrightarrow> i mod 10 < j mod 10"
  by (simp add: less_char_def of_char_digit)

lemma digit_eq_iff: "digit i = digit j \<longleftrightarrow> i mod 10 = j mod 10"
proof
  assume "digit i = digit j"
  then have "(of_char (digit i) :: nat) = of_char (digit j)" by simp
  then show "i mod 10 = j mod 10" by (simp add: of_char_digit)
next
  assume "i mod 10 = j mod 10"
  then show "digit i = digit j" by (simp add: digit_def)
qed

lemma length_zfill [simp]: "length (zfill k n) = k"
  by (induction k arbitrary: n) auto

lemma append_less_append:
  fixes xs ys :: "'a::linorder list"
  assumes "length xs = length ys"
  shows "xs @ us < ys @ vs \<longleftrightarrow> xs < ys \<or> (xs = ys \<and> us < vs)"
  using assms
proof (induction xs ys rule: list_induct2)
  case Nil
  then show ?case by simp
next
  case (Cons x xs y ys)
  then show ?case by (simp add: Cons_less_Cons) blast
qed

lemma lex10:
  fixes q r q' r' :: nat
  assumes "r < 10" "r' < 10"
  shows "10 * q + r < 10 * q' + r' \<longleftrightarrow> q < q' \<or> (q = q' \<and> r < r')"
  using assms by linarith

lemma div_mod_10_less: "(n::nat) < m \<longleftrightarrow> n div 10 < m div 10 \<or> (n div 10 = m div 10 \<and> n mod 10 < m mod 10)"
  using lex10 [of "n mod 10" "m mod 10" "n div 10" "m div 10"] by simp

lemma div_mod_10_eq: "(n::nat) = m \<longleftrightarrow> n div 10 = m div 10 \<and> n mod 10 = m mod 10"
  by (metis div_mult_mod_eq)

lemma zfill_eq_iff: "n < 10 ^ k \<Longrightarrow> m < 10 ^ k \<Longrightarrow> zfill k n = zfill k m \<longleftrightarrow> n = m"
proof (induction k arbitrary: n m)
  case 0
  then show ?case by simp
next
  case (Suc k)
  then have "n div 10 < 10 ^ k" "m div 10 < 10 ^ k"
    by (simp_all add: less_mult_imp_div_less mult.commute)
  with Suc.IH have "zfill k (n div 10) = zfill k (m div 10) \<longleftrightarrow> n div 10 = m div 10" by blast
  then show ?case
    using div_mod_10_eq [of n m] by (simp add: digit_eq_iff)
qed

lemma zfill_less_iff: "n < 10 ^ k \<Longrightarrow> m < 10 ^ k \<Longrightarrow> zfill k n < zfill k m \<longleftrightarrow> n < m"
proof (induction k arbitrary: n m)
  case 0
  then show ?case by simp
next
  case (Suc k)
  then have b: "n div 10 < 10 ^ k" "m div 10 < 10 ^ k"
    by (simp_all add: less_mult_imp_div_less mult.commute)
  with Suc.IH have l: "zfill k (n div 10) < zfill k (m div 10) \<longleftrightarrow> n div 10 < m div 10" by blast
  from b have e: "zfill k (n div 10) = zfill k (m div 10) \<longleftrightarrow> n div 10 = m div 10"
    by (rule zfill_eq_iff)
  show ?case
    using div_mod_10_less [of n m] by (simp add: append_less_append l e digit_less_iff)
qed

text \<open>
  The order of the month labels is the chronological order of the months: for years of
  four digits, one label is smaller than another exactly when its month is earlier.
\<close>

lemma month_label_chronological:
  assumes "year a < 10000" "year b < 10000" "month a < 100" "month b < 100"
  shows "month_label a < month_label b \<longleftrightarrow>
     year a < year b \<or> (year a = year b \<and> month a < month b)"
proof -
  have y: "zfill 4 (year a) < zfill 4 (year b) \<longleftrightarrow> year a < year b"
    "zfill 4 (year a) = zfill 4 (year b) \<longleftrightarrow> year a = year b"
    using assms(1,2) by (simp_all add: zfill_less_iff zfill_eq_iff)
  have m: "zfill 2 (month a) < zfill 2 (month b) \<longleftrightarrow> month a < month b"
    using assms(3,4) by (simp add: zfill_less_iff)
  show ?thesis
    by (simp add: month_label_def append_less_append y m)
qed

end
